theory Spec2Isabelle
  imports Main
begin

section \<open>Strings, exceptions and fields\<close>

text \<open>
  A Python \<open>str\<close> is modelled as a \<open>string\<close>: each \<open>char\<close> stands for the code point
  of the same number, so the model covers the strings over U+0000..U+00FF, and
  \<open>length\<close> counts code points as \<open>len\<close> does.

  The exceptions the program raises are values of \<open>error\<close>, carrying their message;
  a call that may raise returns \<open>error + 'a\<close> with \<open>Inl\<close> for the exception.
\<close>

datatype error =
    CheckPhoneNumber string
  | ValueError string
  | OverflowError string

text \<open>\<open>str(e)\<close> of an exception built from one message is that message.\<close>

fun str_of_error :: "error \<Rightarrow> string" where
  "str_of_error (CheckPhoneNumber m) = m"
| "str_of_error (ValueError m) = m"
| "str_of_error (OverflowError m) = m"

text \<open>
  \<open>str.isdigit\<close>: the string is not empty and every character has the Unicode property
  Numeric_Type=Digit or Numeric_Type=Decimal. Below U+0100 these are \<open>0\<close>..\<open>9\<close>
  (U+0030..U+0039) and the superscripts U+00B2, U+00B3 and U+00B9.
\<close>

definition isdigit_char :: "char \<Rightarrow> bool" where
  "isdigit_char c =
     (let n = (of_char c :: nat)
      in (48 \<le> n \<and> n \<le> 57) \<or> n = 178 \<or> n = 179 \<or> n = 185)"

definition isdigit :: "string \<Rightarrow> bool" where
  "isdigit s = (s \<noteq> [] \<and> list_all isdigit_char s)"

text \<open>The decimal digits \<open>0\<close>..\<open>9\<close>, which is also what \<open>\d\<close> matches below U+0100.\<close>

definition decimal_digit :: "char \<Rightarrow> bool" where
  "decimal_digit c = (48 \<le> (of_char c :: nat) \<and> (of_char c :: nat) \<le> 57)"

text \<open>\<open>class Field\<close>: one attribute, \<open>value\<close>. \<open>Name\<close> adds nothing to it.\<close>

datatype 'a Field = Field (value_of: 'a)

definition Name :: "string \<Rightarrow> string Field" where
  "Name v = Field v"

definition not_digit_msg :: "string \<Rightarrow> string" where
  "not_digit_msg v = ''Phone '' @ v @ '' is not digit''"

definition not_10_msg :: "string \<Rightarrow> string" where
  "not_10_msg v = ''Phone '' @ v @ '' > 10 digits''"

text \<open>\<open>Phone.__init__\<close>: the digit check, then the length check, then the field is set.\<close>

definition Phone :: "string \<Rightarrow> error + string Field" where
  "Phone v =
     (if \<not> isdigit v then Inl (CheckPhoneNumber (not_digit_msg v))
      else if length v \<noteq> 10 then Inl (CheckPhoneNumber (not_10_msg v))
      else Inr (Field v))"

section \<open>Dates and times\<close>

text \<open>
  A \<open>datetime\<close> without time zone, with the fields of the library's class. The calendar
  arithmetic follows the library: \<open>_is_leap\<close>, \<open>_days_in_month\<close>,
  \<open>_days_before_year\<close>, \<open>_days_before_month\<close>, \<open>_ymd2ord\<close>, \<open>toordinal\<close> (1 January
  of year 1 is day 1) and \<open>weekday\<close> (Monday is 0, Sunday is 6).
\<close>

record datetime =
  year :: int
  month :: int
  day :: int
  hour :: int
  minute :: int
  second :: int
  microsecond :: int

definition is_leap :: "int \<Rightarrow> bool" where
  "is_leap y = (y mod 4 = 0 \<and> (y mod 100 \<noteq> 0 \<or> y mod 400 = 0))"

definition DAYS_IN_MONTH :: "int list" where
  "DAYS_IN_MONTH = [-1, 31, 28, 31, 30, 31, 30, 31, 31, 30, 31, 30, 31]"

definition DAYS_BEFORE_MONTH :: "int list" where
  "DAYS_BEFORE_MONTH = [-1, 0, 31, 59, 90, 120, 151, 181, 212, 243, 273, 304, 334]"

definition days_in_month :: "int \<Rightarrow> int \<Rightarrow> int" where
  "days_in_month y m = (if m = 2 \<and> is_leap y then 29 else DAYS_IN_MONTH ! nat m)"

definition days_before_year :: "int \<Rightarrow> int" where
  "days_before_year y = (let y' = y - 1 in y' * 365 + y' div 4 - y' div 100 + y' div 400)"

definition days_before_month :: "int \<Rightarrow> int \<Rightarrow> int" where
  "days_before_month y m = DAYS_BEFORE_MONTH ! nat m + (if 2 < m \<and> is_leap y then 1 else 0)"

definition ymd2ord :: "int \<Rightarrow> int \<Rightarrow> int \<Rightarrow> int" where
  "ymd2ord y m d = days_before_year y + days_before_month y m + d"

definition toordinal :: "datetime \<Rightarrow> int" where
  "toordinal dt = ymd2ord (year dt) (month dt) (day dt)"

definition weekday :: "datetime \<Rightarrow> int" where
  "weekday dt = (toordinal dt + 6) mod 7"

text \<open>
  The constructor checks the year, the month, the day and then the time of day, and raises
  \<open>ValueError\<close>. The messages of the library are cut down to their fixed text.
\<close>

definition datetime_new ::
  "int \<Rightarrow> int \<Rightarrow> int \<Rightarrow> int \<Rightarrow> int \<Rightarrow> int \<Rightarrow> int \<Rightarrow> error + datetime" where
  "datetime_new y m d hh mm ss us =
     (if y < 1 \<or> 9999 < y then Inl (ValueError ''year is out of range'')
      else if m < 1 \<or> 12 < m then Inl (ValueError ''month must be in 1..12'')
      else if d < 1 \<or> days_in_month y m < d then Inl (ValueError ''day is out of range for month'')
      else if hh < 0 \<or> 23 < hh then Inl (ValueError ''hour must be in 0..23'')
      else if mm < 0 \<or> 59 < mm then Inl (ValueError ''minute must be in 0..59'')
      else if ss < 0 \<or> 59 < ss then Inl (ValueError ''second must be in 0..59'')
      else if us < 0 \<or> 999999 < us then Inl (ValueError ''microsecond must be in 0..999999'')
      else Inr \<lparr>year = y, month = m, day = d, hour = hh, minute = mm, second = ss,
                microsecond = us\<rparr>)"

text \<open>The values the constructor accepts: every \<open>datetime\<close> of the program is one of them.\<close>

definition valid_datetime :: "datetime \<Rightarrow> bool" where
  "valid_datetime dt =
     (1 \<le> year dt \<and> year dt \<le> 9999 \<and> 1 \<le> month dt \<and> month dt \<le> 12 \<and>
      1 \<le> day dt \<and> day dt \<le> days_in_month (year dt) (month dt) \<and>
      0 \<le> hour dt \<and> hour dt \<le> 23 \<and> 0 \<le> minute dt \<and> minute dt \<le> 59 \<and>
      0 \<le> second dt \<and> second dt \<le> 59 \<and> 0 \<le> microsecond dt \<and> microsecond dt \<le> 999999)"

text \<open>\<open>dt.replace(year=y)\<close> builds a new value through the constructor.\<close>

definition replace_year :: "datetime \<Rightarrow> int \<Rightarrow> error + datetime" where
  "replace_year dt y =
     datetime_new y (month dt) (day dt) (hour dt) (minute dt) (second dt) (microsecond dt)"

text \<open>
  \<open>a < b\<close> compares the tuples (year, month, day, hour, minute, second, microsecond)
  lexicographically.
\<close>

fun lex_less :: "int list \<Rightarrow> int list \<Rightarrow> bool" where
  "lex_less (x # xs) (y # ys) = (x < y \<or> (x = y \<and> lex_less xs ys))"
| "lex_less [] (y # ys) = True"
| "lex_less xs [] = False"

definition dt_fields :: "datetime \<Rightarrow> int list" where
  "dt_fields dt = [year dt, month dt, day dt, hour dt, minute dt, second dt, microsecond dt]"

definition dt_less :: "datetime \<Rightarrow> datetime \<Rightarrow> bool" where
  "dt_less a b = lex_less (dt_fields a) (dt_fields b)"

text \<open>
  \<open>a - b\<close> is the \<open>timedelta\<close> built from the difference of the ordinals, of the seconds of
  the day and of the microseconds; the constructor normalises it, so that \<open>days\<close> is the
  floor of the whole difference in days.
\<close>

record timedelta =
  td_days :: int
  td_seconds :: int
  td_microseconds :: int

definition timedelta_new :: "int \<Rightarrow> int \<Rightarrow> int \<Rightarrow> timedelta" where
  "timedelta_new d s us =
     (let total = (d * 86400 + s) * 1000000 + us
      in \<lparr>td_days = total div 86400000000,
          td_seconds = total mod 86400000000 div 1000000,
          td_microseconds = total mod 1000000\<rparr>)"

definition seconds_of_day :: "datetime \<Rightarrow> int" where
  "seconds_of_day dt = second dt + minute dt * 60 + hour dt * 3600"

definition datetime_sub :: "datetime \<Rightarrow> datetime \<Rightarrow> timedelta" where
  "datetime_sub a b =
     timedelta_new (toordinal a - toordinal b) (seconds_of_day a - seconds_of_day b)
       (microsecond a - microsecond b)"

text \<open>
  \<open>dt + timedelta(days=n)\<close> is the date \<open>n\<close> days away, with the time of day kept. The
  library goes through the ordinal; here the calendar is stepped one day at a time, which
  reaches the same date (\<open>toordinal\<close> grows by one with every step, see
  \<open>toordinal_next_day\<close>). \<open>OverflowError\<close> is raised for more than 999999999 days and for a
  result outside the years 1..9999.
\<close>

definition next_day :: "datetime \<Rightarrow> datetime" where
  "next_day dt =
     (if day dt < days_in_month (year dt) (month dt) then dt\<lparr>day := day dt + 1\<rparr>
      else if month dt < 12 then dt\<lparr>month := month dt + 1, day := 1\<rparr>
      else dt\<lparr>year := year dt + 1, month := 1, day := 1\<rparr>)"

definition prev_day :: "datetime \<Rightarrow> datetime" where
  "prev_day dt =
     (if 1 < day dt then dt\<lparr>day := day dt - 1\<rparr>
      else if 1 < month dt
        then dt\<lparr>month := month dt - 1, day := days_in_month (year dt) (month dt - 1)\<rparr>
      else dt\<lparr>year := year dt - 1, month := 12, day := 31\<rparr>)"

definition plus_days :: "datetime \<Rightarrow> int \<Rightarrow> error + datetime" where
  "plus_days dt n =
     (if 999999999 < \<bar>n\<bar> then Inl (OverflowError ''days out of range'')
      else let r = (if 0 \<le> n then (next_day ^^ nat n) dt else (prev_day ^^ nat (- n)) dt)
           in if year r < 1 \<or> 9999 < year r then Inl (OverflowError ''date value out of range'')
              else Inr r)"

text \<open>
  \<open>strftime("%d.%m.%Y")\<close> hands the fields to the C library. \<open>%d\<close> and \<open>%m\<close> are the
  day and the month on two digits. \<open>%Y\<close> is the year as a decimal number with no padding:
  four digits from the year 1000 on, fewer below (the year 999 is printed \<open>999\<close>, the
  year 1 is printed \<open>1\<close>). The year of a \<open>datetime\<close> is within 1..9999.
\<close>

definition digit_char :: "int \<Rightarrow> char" where
  "digit_char n = char_of (nat (48 + n))"

definition pad2 :: "int \<Rightarrow> string" where
  "pad2 n = [digit_char (n div 10), digit_char (n mod 10)]"

definition pad4 :: "int \<Rightarrow> string" where
  "pad4 n = [digit_char (n div 1000), digit_char (n div 100 mod 10),
             digit_char (n div 10 mod 10), digit_char (n mod 10)]"

definition strftime_Y :: "int \<Rightarrow> string" where
  "strftime_Y y =
     (if y < 10 then [digit_char y]
      else if y < 100 then [digit_char (y div 10), digit_char (y mod 10)]
      else if y < 1000
        then [digit_char (y div 100), digit_char (y div 10 mod 10), digit_char (y mod 10)]
      else pad4 y)"

definition strftime_dmY :: "datetime \<Rightarrow> string" where
  "strftime_dmY dt = pad2 (day dt) @ ''.'' @ pad2 (month dt) @ ''.'' @ strftime_Y (year dt)"

text \<open>
  \<open>strptime(s, "%d.%m.%Y")\<close> matches \<open>s\<close> from its start against the regular expression
  \<^verbatim>\<open>(3[0-1]|[1-2]\d|0[1-9]|[1-9]| [1-9])\.(1[0-2]|0[1-9]|[1-9])\.(\d\d\d\d)\<close>,
  alternatives tried from the left with backtracking. A matcher returns every way to match
  a prefix, in that order, as the matched text and the rest; the first full match is the
  one the library takes. No match, text left after the match, and a date the constructor
  refuses all raise \<open>ValueError\<close>.
\<close>

definition in_range :: "char \<Rightarrow> char \<Rightarrow> char \<Rightarrow> bool" where
  "in_range lo hi c = ((of_char lo :: nat) \<le> of_char c \<and> (of_char c :: nat) \<le> of_char hi)"

fun re_two :: "(char \<Rightarrow> bool) \<Rightarrow> (char \<Rightarrow> bool) \<Rightarrow> string \<Rightarrow> (string \<times> string) list" where
  "re_two p q (a # b # rest) = (if p a \<and> q b then [([a, b], rest)] else [])"
| "re_two p q s = []"

fun re_one :: "(char \<Rightarrow> bool) \<Rightarrow> string \<Rightarrow> (string \<times> string) list" where
  "re_one p (a # rest) = (if p a then [([a], rest)] else [])"
| "re_one p [] = []"

definition re_d :: "string \<Rightarrow> (string \<times> string) list" where
  "re_d s =
     re_two (\<lambda>c. c = CHR ''3'') (in_range CHR ''0'' CHR ''1'') s @
     re_two (in_range CHR ''1'' CHR ''2'') decimal_digit s @
     re_two (\<lambda>c. c = CHR ''0'') (in_range CHR ''1'' CHR ''9'') s @
     re_one (in_range CHR ''1'' CHR ''9'') s @
     re_two (\<lambda>c. c = CHR '' '') (in_range CHR ''1'' CHR ''9'') s"

definition re_m :: "string \<Rightarrow> (string \<times> string) list" where
  "re_m s =
     re_two (\<lambda>c. c = CHR ''1'') (in_range CHR ''0'' CHR ''2'') s @
     re_two (\<lambda>c. c = CHR ''0'') (in_range CHR ''1'' CHR ''9'') s @
     re_one (in_range CHR ''1'' CHR ''9'') s"

fun re_Y :: "string \<Rightarrow> (string \<times> string) list" where
  "re_Y (a # b # c # d # rest) =
     (if decimal_digit a \<and> decimal_digit b \<and> decimal_digit c \<and> decimal_digit d
      then [([a, b, c, d], rest)] else [])"
| "re_Y s = []"

fun re_dot :: "string \<Rightarrow> string list" where
  "re_dot (a # rest) = (if a = CHR ''.'' then [rest] else [])"
| "re_dot [] = []"

definition re_d_dot :: "string \<Rightarrow> (string \<times> string) list" where
  "re_d_dot s = concat (map (\<lambda>(d, r). map (\<lambda>r'. (d, r')) (re_dot r)) (re_d s))"

definition re_m_dot :: "string \<Rightarrow> (string \<times> string) list" where
  "re_m_dot s = concat (map (\<lambda>(m, r). map (\<lambda>r'. (m, r')) (re_dot r)) (re_m s))"

definition re_dmY :: "string \<Rightarrow> (string \<times> string \<times> string \<times> string) list" where
  "re_dmY s =
     concat (map (\<lambda>(d, r1).
       concat (map (\<lambda>(m, r2).
         map (\<lambda>(y, r3). (d, m, y, r3)) (re_Y r2)) (re_m_dot r1))) (re_d_dot s))"

text \<open>\<open>int\<close> of a matched group: blanks around the number are dropped, then decimal.\<close>

definition digit_val :: "char \<Rightarrow> int" where
  "digit_val c = int (of_char c) - 48"

definition int_of_text :: "string \<Rightarrow> int" where
  "int_of_text s = foldl (\<lambda>a c. 10 * a + digit_val c) 0 (filter (\<lambda>c. c \<noteq> CHR '' '') s)"

definition strptime_dmY :: "string \<Rightarrow> error + datetime" where
  "strptime_dmY s =
     (case re_dmY s of
        [] \<Rightarrow> Inl (ValueError ''time data does not match format'')
      | (d, m, y, rest) # _ \<Rightarrow>
          if rest \<noteq> [] then Inl (ValueError (''unconverted data remains: '' @ rest))
          else datetime_new (int_of_text y) (int_of_text m) (int_of_text d) 0 0 0 0)"

text \<open>
  \<open>Birthday.__init__\<close>: \<open>except ValueError\<close> replaces the library's exception by one with
  the message of the program.
\<close>

definition Birthday :: "string \<Rightarrow> error + datetime Field" where
  "Birthday v =
     (case strptime_dmY v of
        Inl (ValueError m) \<Rightarrow> Inl (ValueError ''Invalid date format. Use DD.MM.YYYY'')
      | Inl e \<Rightarrow> Inl e
      | Inr dt \<Rightarrow> Inr (Field dt))"

section \<open>Records\<close>

text \<open>
  \<open>class Record\<close>: a name, the phones in insertion order, and a birthday or \<open>None\<close>.
  A method takes the record and returns its outcome together with the record after the
  call, also when it raises, so that what an exception leaves behind can be stated.
\<close>

record Record =
  name :: "string Field"
  phones :: "string Field list"
  birthday :: "datetime Field option"

definition Record_init :: "string \<Rightarrow> Record" where
  "Record_init n = \<lparr>name = Name n, phones = [], birthday = None\<rparr>"

text \<open>
  \<open>self.phones.append(Phone(phone))\<close>: the argument is evaluated first, so an
  exception of \<open>Phone\<close> leaves before \<open>append\<close> runs.
\<close>

definition add_phone :: "Record \<Rightarrow> string \<Rightarrow> (error + unit) \<times> Record" where
  "add_phone r phone =
     (case Phone phone of
        Inl e \<Rightarrow> (Inl e, r)
      | Inr p \<Rightarrow> (Inr (), r\<lparr>phones := phones r @ [p]\<rparr>))"

definition remove_phone :: "Record \<Rightarrow> string \<Rightarrow> Record" where
  "remove_phone r phone = r\<lparr>phones := filter (\<lambda>p. value_of p \<noteq> phone) (phones r)\<rparr>"

definition remove_all_phones :: "Record \<Rightarrow> Record" where
  "remove_all_phones r = r\<lparr>phones := []\<rparr>"

text \<open>
  \<open>edit_phone\<close>: \<open>except CheckPhoneNumber as e: return str(e)\<close> turns that exception
  into the returned string; any other exception would propagate. Without an exception the
  loop overwrites \<open>value\<close> in every phone equal to \<open>old_phone\<close> and the method returns
  \<open>None\<close>.
\<close>

definition edit_phone ::
  "Record \<Rightarrow> string \<Rightarrow> string \<Rightarrow> (error + string option) \<times> Record" where
  "edit_phone r old_phone new_phone =
     (case Phone new_phone of
        Inl (CheckPhoneNumber m) \<Rightarrow> (Inr (Some (str_of_error (CheckPhoneNumber m))), r)
      | Inl e \<Rightarrow> (Inl e, r)
      | Inr new_phone_obj \<Rightarrow>
          (Inr None,
           r\<lparr>phones :=
               map (\<lambda>phone. if value_of phone = old_phone
                              then Field (value_of new_phone_obj) else phone)
                   (phones r)\<rparr>))"

definition find_phone :: "Record \<Rightarrow> string \<Rightarrow> string Field option" where
  "find_phone r phone = List.find (\<lambda>item. value_of item = phone) (phones r)"

definition add_birthday :: "Record \<Rightarrow> string \<Rightarrow> (error + unit) \<times> Record" where
  "add_birthday r birthday_date =
     (case Birthday birthday_date of
        Inl e \<Rightarrow> (Inl e, r)
      | Inr b \<Rightarrow> (Inr (), r\<lparr>birthday := Some b\<rparr>))"

section \<open>The address book\<close>

text \<open>
  \<open>AddressBook\<close> is a \<open>UserDict\<close>: its \<open>data\<close> is a dictionary, which keeps its keys
  in insertion order and holds each key once. It is modelled as the list of its items.
  Assigning to a key that is present replaces the value where it stands; a new key goes
  to the end.
\<close>

type_synonym AddressBook = "(string \<times> Record) list"

fun dict_set :: "('k \<times> 'v) list \<Rightarrow> 'k \<Rightarrow> 'v \<Rightarrow> ('k \<times> 'v) list" where
  "dict_set [] k v = [(k, v)]"
| "dict_set ((k', v') # kvs) k v =
     (if k' = k then (k', v) # kvs else (k', v') # dict_set kvs k v)"

definition add_record :: "AddressBook \<Rightarrow> Record \<Rightarrow> AddressBook" where
  "add_record book record = dict_set book (value_of (name record)) record"

definition find :: "AddressBook \<Rightarrow> string \<Rightarrow> Record option" where
  "find book n = map_of book n"

definition delete :: "AddressBook \<Rightarrow> string \<Rightarrow> AddressBook" where
  "delete book n = (if n \<in> fst ` set book then filter (\<lambda>kv. fst kv \<noteq> n) book else book)"

text \<open>The number of items stored under a key.\<close>

definition entries_for :: "AddressBook \<Rightarrow> string \<Rightarrow> nat" where
  "entries_for book n = length (filter (\<lambda>kv. fst kv = n) book)"

section \<open>Upcoming birthdays\<close>

definition find_next_weekday :: "datetime \<Rightarrow> int \<Rightarrow> error + datetime" where
  "find_next_weekday start_date wd =
     (let days_ahead = wd - weekday start_date;
          days_ahead = (if days_ahead \<le> 0 then days_ahead + 7 else days_ahead)
      in plus_days start_date days_ahead)"

definition adjust_for_weekend :: "datetime \<Rightarrow> error + datetime" where
  "adjust_for_weekend b = (if 5 \<le> weekday b then find_next_weekday b 0 else Inr b)"

text \<open>
  One element of the result: the dictionary with the keys \<open>"Contact"\<close> and
  \<open>"upcoming birthday"\<close>.
\<close>

record upcoming =
  Contact :: string
  upcoming_birthday :: string

text \<open>
  \<open>get_upcoming_birthdays\<close>. \<open>datetime.today()\<close> reads the clock: the value read is the
  argument \<open>today\<close>, date and time of day. The loop goes through the items of the book in
  their order, with the list built so far; an exception of \<open>replace\<close> or of the weekend
  adjustment ends the call. A \<open>Birthday\<close> object is always true, so \<open>if record.birthday\<close>
  tests for \<open>None\<close>. What \<open>print(address_book)\<close> writes is left out.
\<close>

fun upcoming_loop ::
  "(string \<times> Record) list \<Rightarrow> int \<Rightarrow> datetime \<Rightarrow> upcoming list \<Rightarrow> error + upcoming list" where
  "upcoming_loop [] days today upcoming_birthdays = Inr upcoming_birthdays"
| "upcoming_loop ((n, record) # items) days today upcoming_birthdays =
     (case birthday record of
        None \<Rightarrow> upcoming_loop items days today upcoming_birthdays
      | Some b \<Rightarrow>
          (case replace_year (value_of b) (year today) of
             Inl e \<Rightarrow> Inl e
           | Inr this_year \<Rightarrow>
               (case (if dt_less this_year today
                      then replace_year (value_of b) (year today + 1)
                      else Inr this_year) of
                  Inl e \<Rightarrow> Inl e
                | Inr birthday_this_year \<Rightarrow>
                    if 0 \<le> td_days (datetime_sub birthday_this_year today) \<and>
                       td_days (datetime_sub birthday_this_year today) \<le> days
                    then (case adjust_for_weekend birthday_this_year of
                            Inl e \<Rightarrow> Inl e
                          | Inr adjusted \<Rightarrow>
                              upcoming_loop items days today
                                (upcoming_birthdays @
                                   [\<lparr>Contact = n, upcoming_birthday = strftime_dmY adjusted\<rparr>]))
                    else upcoming_loop items days today upcoming_birthdays)))"

definition get_upcoming_birthdays ::
  "AddressBook \<Rightarrow> int \<Rightarrow> datetime \<Rightarrow> error + upcoming list" where
  "get_upcoming_birthdays address_book days today = upcoming_loop address_book days today []"

section \<open>Birthday literals\<close>

text \<open>
  The numbers written by two and by four decimal digits, and the dates of the calendar the
  library knows: years 1 to 9999, months 1 to 12, days within the month. They state which
  strings \<open>DD.MM.YYYY\<close> denote a real date.
\<close>

definition two_digits :: "char \<Rightarrow> char \<Rightarrow> int" where
  "two_digits a b = 10 * digit_val a + digit_val b"

definition four_digits :: "char \<Rightarrow> char \<Rightarrow> char \<Rightarrow> char \<Rightarrow> int" where
  "four_digits a b c d = 1000 * digit_val a + 100 * digit_val b + 10 * digit_val c + digit_val d"

definition real_date :: "int \<Rightarrow> int \<Rightarrow> int \<Rightarrow> bool" where
  "real_date y m d = (1 \<le> y \<and> y \<le> 9999 \<and> 1 \<le> m \<and> m \<le> 12 \<and> 1 \<le> d \<and> d \<le> days_in_month y m)"

section \<open>Phone validation\<close>

lemma Phone_Inl_cases:
  "Phone v = Inl e \<Longrightarrow>
     e = CheckPhoneNumber (not_digit_msg v) \<or> e = CheckPhoneNumber (not_10_msg v)"
  by (auto simp: Phone_def split: if_splits)

lemma Phone_Inr_value: "Phone v = Inr p \<Longrightarrow> p = Field v"
  by (auto simp: Phone_def split: if_splits)

lemma phone_messages_differ: "not_digit_msg v \<noteq> not_10_msg v"
proof
  assume "not_digit_msg v = not_10_msg v"
  then have "length (not_digit_msg v) = length (not_10_msg v)" by simp
  then show False by (simp add: not_digit_msg_def not_10_msg_def)
qed

lemma decimal_digit_isdigit_char: "decimal_digit c \<Longrightarrow> isdigit_char c"
  by (simp add: decimal_digit_def isdigit_char_def)

text \<open>
  C3, as stated, fails: a string of ten superscript twos (U+00B2) is accepted by \<open>Phone\<close>,
  because \<open>isdigit\<close> holds for it, although none of its characters is a decimal digit.
\<close>

theorem Phone_accepts_superscript_digits:
  "Phone [CHR 0xB2, CHR 0xB2, CHR 0xB2, CHR 0xB2, CHR 0xB2,
          CHR 0xB2, CHR 0xB2, CHR 0xB2, CHR 0xB2, CHR 0xB2]
     = Inr (Field [CHR 0xB2, CHR 0xB2, CHR 0xB2, CHR 0xB2, CHR 0xB2,
                   CHR 0xB2, CHR 0xB2, CHR 0xB2, CHR 0xB2, CHR 0xB2]) \<and>
   \<not> list_all decimal_digit [CHR 0xB2, CHR 0xB2, CHR 0xB2, CHR 0xB2, CHR 0xB2,
                              CHR 0xB2, CHR 0xB2, CHR 0xB2, CHR 0xB2, CHR 0xB2]"
  by (simp add: Phone_def isdigit_def isdigit_char_def decimal_digit_def)

text \<open>
  C3, amended: for every string \<open>s\<close>, \<open>Phone s\<close> succeeds if and only if \<open>s\<close> has exactly
  10 characters and every character is a digit in the sense of \<open>str.isdigit\<close> (the decimal
  digits and the other digit characters, such as the superscripts); it then holds \<open>s\<close>.
  Otherwise it fails with \<open>CheckPhoneNumber\<close>.
\<close>

theorem Phone_succeeds_iff_ten_isdigit:
  "((\<exists>p. Phone s = Inr p) \<longleftrightarrow> length s = 10 \<and> list_all isdigit_char s) \<and>
   (length s = 10 \<and> list_all isdigit_char s \<longrightarrow> Phone s = Inr (Field s)) \<and>
   (\<not> (length s = 10 \<and> list_all isdigit_char s) \<longrightarrow>
      (\<exists>m. Phone s = Inl (CheckPhoneNumber m)))"
  by (auto simp: Phone_def isdigit_def)

theorem Phone_succeeds_iff_ten_isdigit_witness:
  "(\<exists>p. Phone ''1234567890'' = Inr p) \<and> Phone ''1234567890'' = Inr (Field ''1234567890'') \<and>
   (\<exists>m. Phone ''12345'' = Inl (CheckPhoneNumber m)) \<and>
   (\<exists>m. Phone ''12345abcde'' = Inl (CheckPhoneNumber m))"
proof -
  have a: "length ''1234567890'' = 10 \<and> list_all isdigit_char ''1234567890''"
    by (simp add: isdigit_char_def)
  have b: "\<not> (length ''12345'' = 10 \<and> list_all isdigit_char ''12345'')" by simp
  have c: "\<not> (length ''12345abcde'' = 10 \<and> list_all isdigit_char ''12345abcde'')"
    by (simp add: isdigit_char_def)
  from a b c Phone_succeeds_iff_ten_isdigit [of "''1234567890''"]
    Phone_succeeds_iff_ten_isdigit [of "''12345''"]
    Phone_succeeds_iff_ten_isdigit [of "''12345abcde''"]
  show ?thesis by blast
qed

text \<open>
  C4, as stated, fails at the empty string: it contains no non-digit character, and
  \<open>Phone\<close> rejects it with the digit error, not with the length error, because
  \<open>isdigit\<close> is false for the empty string.
\<close>

theorem Phone_empty_string_is_digit_error:
  "list_all isdigit_char [] \<and>
   Phone [] = Inl (CheckPhoneNumber (not_digit_msg [])) \<and>
   Phone [] \<noteq> Inl (CheckPhoneNumber (not_10_msg []))"
  by (simp add: Phone_def isdigit_def not_digit_msg_def not_10_msg_def)

text \<open>
  C4, amended: the digit check comes first. \<open>Phone s\<close> fails with the digit error exactly
  when \<open>s\<close> is empty or some character of \<open>s\<close> is not a digit; it fails with the length
  error exactly when \<open>s\<close> is not empty, all its characters are digits and its length is
  not 10.
\<close>

theorem Phone_digit_error_before_length_error:
  "(Phone s = Inl (CheckPhoneNumber (not_digit_msg s)) \<longleftrightarrow>
      s = [] \<or> \<not> list_all isdigit_char s) \<and>
   (Phone s = Inl (CheckPhoneNumber (not_10_msg s)) \<longleftrightarrow>
      s \<noteq> [] \<and> list_all isdigit_char s \<and> length s \<noteq> 10)"
  using phone_messages_differ [of s] by (auto simp: Phone_def isdigit_def)

theorem Phone_digit_error_before_length_error_witness:
  "Phone ''12345abcde'' = Inl (CheckPhoneNumber ''Phone 12345abcde is not digit'') \<and>
   Phone ''12345'' = Inl (CheckPhoneNumber ''Phone 12345 > 10 digits'') \<and>
   Phone [] = Inl (CheckPhoneNumber ''Phone  is not digit'')"
proof -
  have a: "''12345abcde'' = [] \<or> \<not> list_all isdigit_char ''12345abcde''"
    by (simp add: isdigit_char_def)
  have b: "''12345'' \<noteq> [] \<and> list_all isdigit_char ''12345'' \<and> length ''12345'' \<noteq> 10"
    by (simp add: isdigit_char_def)
  have c: "([]::string) = [] \<or> \<not> list_all isdigit_char []" by simp
  from a b c Phone_digit_error_before_length_error [of "''12345abcde''"]
    Phone_digit_error_before_length_error [of "''12345''"]
    Phone_digit_error_before_length_error [of "[]"]
  show ?thesis by (simp add: not_digit_msg_def not_10_msg_def)
qed

section \<open>Record operations\<close>

text \<open>
  C10: when \<open>Phone\<close> rejects the string, \<open>add_phone\<close> raises that \<open>CheckPhoneNumber\<close>
  and the record after the call is the record before it: nothing is appended, and the
  name and the birthday are untouched.
\<close>

theorem add_phone_invalid_raises_unchanged:
  "Phone phone = Inl e \<Longrightarrow>
     add_phone r phone = (Inl e, r) \<and> (\<exists>m. e = CheckPhoneNumber m)"
  using Phone_Inl_cases [of phone e] by (auto simp: add_phone_def)

theorem add_phone_invalid_raises_unchanged_witness:
  "Phone ''12345'' = Inl (CheckPhoneNumber ''Phone 12345 > 10 digits'') \<and>
   add_phone \<lparr>name = Name ''Bob'', phones = [Field ''1234567890''], birthday = None\<rparr> ''12345'' =
   (Inl (CheckPhoneNumber ''Phone 12345 > 10 digits''),
    \<lparr>name = Name ''Bob'', phones = [Field ''1234567890''], birthday = None\<rparr>)"
proof -
  have h: "Phone ''12345'' = Inl (CheckPhoneNumber ''Phone 12345 > 10 digits'')"
    by (simp add: Phone_def isdigit_def isdigit_char_def not_10_msg_def)
  from add_phone_invalid_raises_unchanged [OF h] h show ?thesis by simp
qed

text \<open>
  C6: when \<open>Phone\<close> rejects the new phone, \<open>edit_phone\<close> does not raise: it returns the
  message of the exception as a string, and the record, with its phone list, is as it was.
\<close>

theorem edit_phone_invalid_returns_message:
  "Phone new_phone = Inl e \<Longrightarrow>
     edit_phone r old_phone new_phone = (Inr (Some (str_of_error e)), r) \<and>
     (\<exists>m. e = CheckPhoneNumber m)"
  using Phone_Inl_cases [of new_phone e] by (auto simp: edit_phone_def)

theorem edit_phone_invalid_returns_message_witness:
  "Phone ''12a'' = Inl (CheckPhoneNumber ''Phone 12a is not digit'') \<and>
   edit_phone \<lparr>name = Name ''Bob'', phones = [Field ''1234567890''], birthday = None\<rparr>
     ''1234567890'' ''12a'' =
   (Inr (Some ''Phone 12a is not digit''),
    \<lparr>name = Name ''Bob'', phones = [Field ''1234567890''], birthday = None\<rparr>)"
proof -
  have h: "Phone ''12a'' = Inl (CheckPhoneNumber ''Phone 12a is not digit'')"
    by (simp add: Phone_def isdigit_def isdigit_char_def not_digit_msg_def)
  from edit_phone_invalid_returns_message [OF h] h show ?thesis by simp
qed

text \<open>
  C7: when \<open>Phone\<close> accepts the new phone, \<open>edit_phone\<close> returns \<open>None\<close> and the phone list
  keeps its length; at every position, an entry whose value is \<open>old_phone\<close> now holds the
  new value and any other entry is unchanged. The name and the birthday are unchanged.
\<close>

theorem edit_phone_valid_replaces_in_place:
  "Phone new_phone = Inr p \<Longrightarrow>
     fst (edit_phone r old_phone new_phone) = Inr None \<and>
     name (snd (edit_phone r old_phone new_phone)) = name r \<and>
     birthday (snd (edit_phone r old_phone new_phone)) = birthday r \<and>
     length (phones (snd (edit_phone r old_phone new_phone))) = length (phones r) \<and>
     (\<forall>i < length (phones r).
        phones (snd (edit_phone r old_phone new_phone)) ! i =
          (if value_of (phones r ! i) = old_phone then Field new_phone else phones r ! i))"
  using Phone_Inr_value [of new_phone p] by (auto simp: edit_phone_def)

theorem edit_phone_valid_replaces_in_place_witness:
  "Phone ''5555555555'' = Inr (Field ''5555555555'') \<and>
   phones (snd (edit_phone
      \<lparr>name = Name ''Bob'',
        phones = [Field ''1234567890'', Field ''0987654321'', Field ''1234567890''],
        birthday = None\<rparr> ''1234567890'' ''5555555555'')) ! 2 = Field ''5555555555'' \<and>
   phones (snd (edit_phone
      \<lparr>name = Name ''Bob'',
        phones = [Field ''1234567890'', Field ''0987654321'', Field ''1234567890''],
        birthday = None\<rparr> ''1234567890'' ''5555555555'')) ! 1 = Field ''0987654321''"
proof -
  have h: "Phone ''5555555555'' = Inr (Field ''5555555555'')"
    by (simp add: Phone_def isdigit_def isdigit_char_def)
  from edit_phone_valid_replaces_in_place [OF h, of "\<lparr>name = Name ''Bob'',
        phones = [Field ''1234567890'', Field ''0987654321'', Field ''1234567890''],
        birthday = None\<rparr>" "''1234567890''"] h
  show ?thesis by simp
qed

section \<open>Overwriting in the address book\<close>

lemma map_of_dict_set: "map_of (dict_set kvs k v) = (map_of kvs)(k \<mapsto> v)"
  by (induction kvs k v rule: dict_set.induct) auto

lemma keys_dict_set: "fst ` set (dict_set kvs k v) = insert k (fst ` set kvs)"
  by (induction kvs k v rule: dict_set.induct) auto

lemma distinct_dict_set:
  "distinct (map fst kvs) \<Longrightarrow> distinct (map fst (dict_set kvs k v))"
  by (induction kvs k v rule: dict_set.induct) (auto simp: keys_dict_set)

lemma one_item_after_dict_set:
  "distinct (map fst kvs) \<Longrightarrow> length (filter (\<lambda>kv. fst kv = k) (dict_set kvs k v)) = 1"
proof (induction kvs k v rule: dict_set.induct)
  case (1 k v)
  then show ?case by simp
next
  case (2 k' v' kvs k v)
  show ?case
  proof (cases "k' = k")
    case True
    with 2 have "\<forall>kv \<in> set kvs. fst kv \<noteq> k" by auto
    then have "filter (\<lambda>kv. fst kv = k) kvs = []" by (simp add: filter_empty_conv)
    with True show ?thesis by simp
  next
    case False
    with 2 show ?thesis by simp
  qed
qed

lemma dict_set_twice: "dict_set (dict_set kvs k v1) k v2 = dict_set kvs k v2"
  by (induction kvs k v1 rule: dict_set.induct) auto

lemma filter_other_dict_set:
  "n \<noteq> k \<Longrightarrow> filter (\<lambda>kv. fst kv = n) (dict_set kvs k v) = filter (\<lambda>kv. fst kv = n) kvs"
  by (induction kvs k v rule: dict_set.induct) auto

lemma dict_set_new: "k \<notin> fst ` set kvs \<Longrightarrow> dict_set kvs k v = kvs @ [(k, v)]"
  by (induction kvs k v rule: dict_set.induct) auto

lemma dict_set_present:
  "distinct (map fst kvs) \<Longrightarrow> k \<in> fst ` set kvs \<Longrightarrow>
   dict_set kvs k v = map (\<lambda>kv. if fst kv = k then (k, v) else kv) kvs"
proof (induction kvs k v rule: dict_set.induct)
  case (1 k v)
  then show ?case by simp
next
  case (2 k' v' kvs k v)
  show ?case
  proof (cases "k' = k")
    case True
    with 2(2) have "\<forall>kv \<in> set kvs. fst kv \<noteq> k" by auto
    then have "map (\<lambda>kv. if fst kv = k then (k, v) else kv) kvs = kvs"
      by (intro map_idI) auto
    with True show ?thesis by simp
  next
    case False
    with 2 show ?thesis by auto
  qed
qed

text \<open>
  C8: in a book whose keys are distinct, as those of a dictionary are, \<open>add_record\<close> puts
  the record under its name: where the name is present the value is replaced in its
  place, otherwise the item goes to the end, and nothing else changes. Afterwards the name
  is found once, with that record as a whole, and the other names are found as before.
  Adding two records of the same name one after the other gives the book that adding the
  second alone gives: one item under the name, holding the second record (its phones and
  its birthday, nothing of the first).
\<close>

theorem add_record_inserts_or_overwrites:
  assumes "distinct (map fst book)"
  shows "add_record book r =
           (if value_of (name r) \<in> fst ` set book
            then map (\<lambda>kv. if fst kv = value_of (name r) then (value_of (name r), r) else kv) book
            else book @ [(value_of (name r), r)]) \<and>
         find (add_record book r) (value_of (name r)) = Some r \<and>
         entries_for (add_record book r) (value_of (name r)) = 1 \<and>
         distinct (map fst (add_record book r)) \<and>
         (\<forall>n. n \<noteq> value_of (name r) \<longrightarrow>
            find (add_record book r) n = find book n \<and>
            entries_for (add_record book r) n = entries_for book n) \<and>
         (name r1 = name r2 \<longrightarrow>
            add_record (add_record book r1) r2 = add_record book r2 \<and>
            find (add_record (add_record book r1) r2) (value_of (name r2)) = Some r2 \<and>
            entries_for (add_record (add_record book r1) r2) (value_of (name r2)) = 1)"
proof -
  have a: "add_record book r =
           (if value_of (name r) \<in> fst ` set book
            then map (\<lambda>kv. if fst kv = value_of (name r) then (value_of (name r), r) else kv) book
            else book @ [(value_of (name r), r)])"
  proof (cases "value_of (name r) \<in> fst ` set book")
    case True
    from dict_set_present [OF assms True] True show ?thesis by (simp add: add_record_def)
  next
    case False
    from dict_set_new [OF False] False show ?thesis by (simp add: add_record_def)
  qed
  have b: "find (add_record book r) (value_of (name r)) = Some r" for r
    by (simp add: add_record_def find_def map_of_dict_set)
  have c: "entries_for (add_record book r) (value_of (name r)) = 1" for r
    using assms by (simp add: add_record_def entries_for_def one_item_after_dict_set)
  have d: "distinct (map fst (add_record book r))"
    using assms by (simp add: add_record_def distinct_dict_set)
  have e: "\<forall>n. n \<noteq> value_of (name r) \<longrightarrow>
            find (add_record book r) n = find book n \<and>
            entries_for (add_record book r) n = entries_for book n"
    by (simp add: add_record_def find_def entries_for_def map_of_dict_set filter_other_dict_set)
  have f: "add_record (add_record book r1) r2 = add_record book r2" if "name r1 = name r2"
    using that by (simp add: add_record_def dict_set_twice)
  from a b [of r] c [of r] d e f b [of r2] c [of r2] show ?thesis by simp
qed

theorem add_record_inserts_or_overwrites_witness:
  "distinct (map fst [(''Ann'', Record_init ''Ann'')]) \<and>
   add_record [(''Ann'', Record_init ''Ann'')]
     \<lparr>name = Name ''Bob'', phones = [Field ''1234567890''], birthday = None\<rparr> =
   [(''Ann'', Record_init ''Ann''),
    (''Bob'', \<lparr>name = Name ''Bob'', phones = [Field ''1234567890''], birthday = None\<rparr>)] \<and>
   add_record (add_record [(''Ann'', Record_init ''Ann'')]
       \<lparr>name = Name ''Bob'', phones = [Field ''1234567890''], birthday = None\<rparr>)
     \<lparr>name = Name ''Bob'', phones = [Field ''0987654321''], birthday = None\<rparr> =
   [(''Ann'', Record_init ''Ann''),
    (''Bob'', \<lparr>name = Name ''Bob'', phones = [Field ''0987654321''], birthday = None\<rparr>)] \<and>
   find (add_record (add_record [(''Ann'', Record_init ''Ann'')]
           \<lparr>name = Name ''Bob'', phones = [Field ''1234567890''], birthday = None\<rparr>)
           \<lparr>name = Name ''Bob'', phones = [Field ''0987654321''], birthday = None\<rparr>) ''Bob''
     = Some \<lparr>name = Name ''Bob'', phones = [Field ''0987654321''], birthday = None\<rparr> \<and>
   entries_for (add_record (add_record [(''Ann'', Record_init ''Ann'')]
           \<lparr>name = Name ''Bob'', phones = [Field ''1234567890''], birthday = None\<rparr>)
           \<lparr>name = Name ''Bob'', phones = [Field ''0987654321''], birthday = None\<rparr>) ''Bob'' = 1"
proof -
  let ?book = "[(''Ann'', Record_init ''Ann'')]"
  let ?b1 = "\<lparr>name = Name ''Bob'', phones = [Field ''1234567890''], birthday = None\<rparr>"
  let ?b2 = "\<lparr>name = Name ''Bob'', phones = [Field ''0987654321''], birthday = None\<rparr>"
  have d: "distinct (map fst ?book)" by simp
  have n: "name ?b1 = name ?b2" by simp
  have k: "value_of (name ?b1) = ''Bob''" "value_of (name ?b2) = ''Bob''" by (simp_all add: Name_def)
  from add_record_inserts_or_overwrites [OF d, of ?b1 ?b1 ?b2]
    add_record_inserts_or_overwrites [OF d, of ?b2 ?b1 ?b2] n d k show ?thesis
    by simp
qed

section \<open>Calendar arithmetic\<close>

lemma div_step:
  assumes "0 < k"
  shows "(y::int) div k - (y - 1) div k = (if y mod k = 0 then 1 else 0)"
proof (cases "y mod k = 0")
  case True
  have "y = k * (y div k) + y mod k" by simp
  with True have "y - 1 = k * (y div k - 1) + (k - 1)" by (simp add: algebra_simps)
  from int_div_pos_eq [OF this] assms have "(y - 1) div k = y div k - 1" by simp
  with True show ?thesis by simp
next
  case False
  from assms have "0 \<le> y mod k" "y mod k < k" by simp_all
  with False have r: "0 \<le> y mod k - 1" "y mod k - 1 < k" by simp_all
  have "y = k * (y div k) + y mod k" by simp
  then have "y - 1 = k * (y div k) + (y mod k - 1)" by simp
  from int_div_pos_eq [OF this r] have "(y - 1) div k = y div k" .
  with False show ?thesis by simp
qed

lemma mod_400_100: "(y::int) mod 400 = 0 \<Longrightarrow> y mod 100 = 0"
proof -
  assume h: "y mod 400 = 0"
  have "y mod 400 mod 100 = y mod 100" by (rule mod_mod_cancel) simp
  with h show ?thesis by simp
qed

lemma mod_100_4: "(y::int) mod 100 = 0 \<Longrightarrow> y mod 4 = 0"
proof -
  assume h: "y mod 100 = 0"
  have "y mod 100 mod 4 = y mod 4" by (rule mod_mod_cancel) simp
  with h show ?thesis by simp
qed

lemma leap_count:
  "(C \<longrightarrow> B) \<Longrightarrow> (B \<longrightarrow> A) \<Longrightarrow>
   (if A then 1 else 0) - (if B then 1 else 0) + (if C then 1 else (0::int)) =
   (if A \<and> (\<not> B \<or> C) then 1 else 0)"
  by (cases A; cases B; cases C; simp)

lemma year_step_arith:
  "(D1::int) = y * 365 + q4 - q100 + q400 \<Longrightarrow> D0 = (y - 1) * 365 + p4 - p100 + p400 \<Longrightarrow>
   q4 - p4 = X \<Longrightarrow> q100 - p100 = Y \<Longrightarrow> q400 - p400 = Z \<Longrightarrow>
   X - Y + Z = L \<Longrightarrow> D1 = D0 + 365 + L"
  by (simp add: algebra_simps)

lemma days_before_year_Suc:
  "days_before_year (y + 1) = days_before_year y + 365 + (if is_leap y then 1 else 0)"
proof -
  have a: "y div 4 - (y - 1) div 4 = (if y mod 4 = 0 then 1 else 0)" by (rule div_step) simp
  have b: "y div 100 - (y - 1) div 100 = (if y mod 100 = 0 then 1 else 0)" by (rule div_step) simp
  have c: "y div 400 - (y - 1) div 400 = (if y mod 400 = 0 then 1 else 0)" by (rule div_step) simp
  have d1: "days_before_year (y + 1) = y * 365 + y div 4 - y div 100 + y div 400"
    by (simp add: days_before_year_def)
  have d0: "days_before_year y = (y - 1) * 365 + (y - 1) div 4 - (y - 1) div 100 + (y - 1) div 400"
    by (simp add: days_before_year_def Let_def)
  have i1: "y mod 400 = 0 \<longrightarrow> y mod 100 = 0" by (rule impI) (erule mod_400_100)
  have i2: "y mod 100 = 0 \<longrightarrow> y mod 4 = 0" by (rule impI) (erule mod_100_4)
  have e: "(if y mod 4 = 0 then 1 else 0) - (if y mod 100 = 0 then 1 else 0) +
           (if y mod 400 = 0 then 1 else (0::int)) = (if is_leap y then 1 else 0)"
    unfolding is_leap_def by (rule leap_count [OF i1 i2])
  from year_step_arith [OF d1 d0 a b c e] show ?thesis .
qed

lemma month_cases:
  "1 \<le> m \<Longrightarrow> m \<le> 12 \<Longrightarrow>
   m = 1 \<or> m = 2 \<or> m = 3 \<or> m = 4 \<or> m = 5 \<or> m = 6 \<or> m = 7 \<or> m = 8 \<or> m = 9 \<or> m = 10 \<or> m = 11 \<or> m = (12::int)"
  by arith

lemma days_before_month_Suc:
  assumes "1 \<le> m" "m \<le> 11"
  shows "days_before_month y (m + 1) = days_before_month y m + days_in_month y m"
proof -
  from assms month_cases [of m] have
    "m = 1 \<or> m = 2 \<or> m = 3 \<or> m = 4 \<or> m = 5 \<or> m = 6 \<or> m = 7 \<or> m = 8 \<or> m = 9 \<or> m = 10 \<or> m = 11"
    by arith
  then show ?thesis
    by (elim disjE) (simp_all add: days_before_month_def days_in_month_def DAYS_BEFORE_MONTH_def DAYS_IN_MONTH_def)
qed

lemma days_in_month_ge_28:
  assumes "1 \<le> m" "m \<le> 12"
  shows "28 \<le> days_in_month y m"
  using month_cases [OF assms]
  by (elim disjE) (simp_all add: days_in_month_def DAYS_IN_MONTH_def)

lemma days_before_month_12: "days_before_month y 12 + days_in_month y 12 = 365 + (if is_leap y then 1 else 0)"
  by (simp add: days_before_month_def days_in_month_def DAYS_BEFORE_MONTH_def DAYS_IN_MONTH_def)

lemma days_before_month_1: "days_before_month y 1 = 0"
  by (simp add: days_before_month_def DAYS_BEFORE_MONTH_def)

lemma toordinal_next_day:
  assumes "1 \<le> month dt" "month dt \<le> 12" "day dt \<le> days_in_month (year dt) (month dt)"
  shows "toordinal (next_day dt) = toordinal dt + 1"
proof (cases "day dt < days_in_month (year dt) (month dt)")
  case True
  then show ?thesis by (simp add: next_day_def toordinal_def ymd2ord_def)
next
  case False
  with assms have d: "day dt = days_in_month (year dt) (month dt)" by simp
  show ?thesis
  proof (cases "month dt < 12")
    case True
    with assms have "month dt \<le> 11" by simp
    from days_before_month_Suc [OF assms(1) this, of "year dt"] d True
    show ?thesis by (simp add: next_day_def toordinal_def ymd2ord_def)
  next
    case False
    with assms have m: "month dt = 12" by simp
    from days_before_month_12 [of "year dt"] days_before_year_Suc [of "year dt"] d m
    show ?thesis by (simp add: next_day_def toordinal_def ymd2ord_def days_before_month_1)
  qed
qed

lemma valid_next_day:
  assumes "valid_datetime dt" "year (next_day dt) \<le> 9999"
  shows "valid_datetime (next_day dt)"
proof -
  from assms(1) have m: "1 \<le> month dt" "month dt \<le> 12" by (simp_all add: valid_datetime_def)
  have a: "month dt < 12 \<Longrightarrow> 1 \<le> days_in_month (year dt) (month dt + 1)"
    using days_in_month_ge_28 [of "month dt + 1" "year dt"] m by simp
  have b: "1 \<le> days_in_month (year dt + 1) 1"
    using days_in_month_ge_28 [of 1 "year dt + 1"] by simp
  from assms a b show ?thesis
    by (simp add: valid_datetime_def next_day_def split: if_splits)
qed

lemma year_next_day:
  "year (next_day dt) = (if day dt < days_in_month (year dt) (month dt) \<or> month dt < 12 then year dt else year dt + 1)"
  by (simp add: next_day_def)

lemma weekday_range: "0 \<le> weekday dt \<and> weekday dt \<le> 6"
  by (simp add: weekday_def)

lemma weekday_next_day:
  assumes "valid_datetime dt"
  shows "weekday (next_day dt) = (weekday dt + 1) mod 7"
proof -
  from assms have "toordinal (next_day dt) = toordinal dt + 1"
    by (intro toordinal_next_day) (simp_all add: valid_datetime_def)
  then show ?thesis by (simp add: weekday_def mod_simps algebra_simps)
qed

lemma weekday_last_day:
  assumes "valid_datetime dt" "9999 < year (next_day dt)"
  shows "weekday dt = 4"
proof -
  from assms have y: "year dt = 9999" and m: "month dt = 12"
    and d: "\<not> day dt < days_in_month (year dt) (month dt)"
    by (auto simp: year_next_day valid_datetime_def split: if_splits)
  from assms(1) d have "day dt = days_in_month (year dt) (month dt)" by (simp add: valid_datetime_def)
  with y m have "day dt = 31" by (simp add: days_in_month_def DAYS_IN_MONTH_def)
  with y m show ?thesis
    by (simp add: weekday_def toordinal_def ymd2ord_def days_before_year_def
        days_before_month_def DAYS_BEFORE_MONTH_def is_leap_def)
qed

lemma lex_less_trans: "lex_less xs ys \<Longrightarrow> lex_less ys zs \<Longrightarrow> lex_less xs zs"
proof (induction xs ys arbitrary: zs rule: lex_less.induct)
  case (1 x xs y ys)
  then show ?case by (cases zs) auto
next
  case (2 y ys)
  then show ?case by (cases zs) auto
next
  case (3 xs)
  then show ?case by simp
qed

lemma dt_less_trans: "dt_less a b \<Longrightarrow> dt_less b c \<Longrightarrow> dt_less a c"
  unfolding dt_less_def by (rule lex_less_trans)

lemma dt_less_next_day: "dt_less dt (next_day dt)"
  by (simp add: dt_less_def dt_fields_def next_day_def)

lemma time_next_day:
  "hour (next_day dt) = hour dt \<and> minute (next_day dt) = minute dt \<and>
   second (next_day dt) = second dt \<and> microsecond (next_day dt) = microsecond dt"
  by (simp add: next_day_def)

lemma plus_days_1: "year (next_day dt) \<le> 9999 \<Longrightarrow> 1 \<le> year (next_day dt) \<Longrightarrow> plus_days dt 1 = Inr (next_day dt)"
  by (simp add: plus_days_def)

lemma plus_days_2:
  "year (next_day (next_day dt)) \<le> 9999 \<Longrightarrow> 1 \<le> year (next_day (next_day dt)) \<Longrightarrow>
   plus_days dt 2 = Inr (next_day (next_day dt))"
  by (simp add: plus_days_def eval_nat_numeral)

lemma year_next_day_ge: "year dt \<le> year (next_day dt)"
  by (simp add: year_next_day)

lemma adjust_weekday: "weekday b \<le> 4 \<Longrightarrow> adjust_for_weekend b = Inr b"
  by (simp add: adjust_for_weekend_def)

lemma adjust_sunday:
  assumes v: "valid_datetime b" and w: "weekday b = 6"
  shows "adjust_for_weekend b = Inr (next_day b)" "valid_datetime (next_day b)"
proof -
  have "\<not> 9999 < year (next_day b)" using weekday_last_day [OF v] w by auto
  then have y: "year (next_day b) \<le> 9999" by simp
  from v have "1 \<le> year b" by (simp add: valid_datetime_def)
  with year_next_day_ge [of b] have y1: "1 \<le> year (next_day b)" by simp
  from plus_days_1 [OF y y1] w show "adjust_for_weekend b = Inr (next_day b)"
    by (simp add: adjust_for_weekend_def find_next_weekday_def)
  from valid_next_day [OF v y] show "valid_datetime (next_day b)" .
qed

lemma adjust_saturday:
  assumes v: "valid_datetime b" and w: "weekday b = 5"
  shows "adjust_for_weekend b = Inr (next_day (next_day b))"
    "valid_datetime (next_day (next_day b))" "valid_datetime (next_day b)"
proof -
  have "\<not> 9999 < year (next_day b)" using weekday_last_day [OF v] w by auto
  then have y: "year (next_day b) \<le> 9999" by simp
  from valid_next_day [OF v y] show v1: "valid_datetime (next_day b)" .
  from weekday_next_day [OF v] w have w1: "weekday (next_day b) = 6" by simp
  have "\<not> 9999 < year (next_day (next_day b))" using weekday_last_day [OF v1] w1 by auto
  then have y2: "year (next_day (next_day b)) \<le> 9999" by simp
  from v have "1 \<le> year b" by (simp add: valid_datetime_def)
  with year_next_day_ge [of b] year_next_day_ge [of "next_day b"]
  have y21: "1 \<le> year (next_day (next_day b))" by simp
  from plus_days_2 [OF y2 y21] w show "adjust_for_weekend b = Inr (next_day (next_day b))"
    by (simp add: adjust_for_weekend_def find_next_weekday_def)
  from valid_next_day [OF v1 y2] show "valid_datetime (next_day (next_day b))" .
qed

text \<open>
  C9: for every date and time the constructor accepts, so for every date of the window,
  \<open>adjust_for_weekend\<close> returns a Monday-to-Friday date unchanged, and moves a Saturday
  two days and a Sunday one day forward, to a Monday: a valid and strictly later date with
  the same time of day. It never overflows, 31 December 9999 being a Friday.
\<close>

theorem adjust_for_weekend_next_monday:
  "valid_datetime b \<Longrightarrow>
     0 \<le> weekday b \<and> weekday b \<le> 6 \<and>
     (weekday b \<le> 4 \<longrightarrow> adjust_for_weekend b = Inr b) \<and>
     (5 \<le> weekday b \<longrightarrow>
        (\<exists>m. adjust_for_weekend b = Inr m \<and> valid_datetime m \<and> weekday m = 0 \<and>
             toordinal m = toordinal b + (if weekday b = 5 then 2 else 1) \<and> dt_less b m \<and>
             hour m = hour b \<and> minute m = minute b \<and> second m = second b \<and>
             microsecond m = microsecond b))"
proof -
  assume v: "valid_datetime b"
  have r: "0 \<le> weekday b \<and> weekday b \<le> 6" by (rule weekday_range)
  have sat: ?thesis if w: "weekday b = 5"
  proof -
    note s = adjust_saturday [OF v w]
    have o1: "toordinal (next_day b) = toordinal b + 1"
      using v by (intro toordinal_next_day) (simp_all add: valid_datetime_def)
    have o2: "toordinal (next_day (next_day b)) = toordinal (next_day b) + 1"
      using s(3) by (intro toordinal_next_day) (simp_all add: valid_datetime_def)
    have w1: "weekday (next_day b) = 6" using weekday_next_day [OF v] w by simp
    have w2: "weekday (next_day (next_day b)) = 0" using weekday_next_day [OF s(3)] w1 by simp
    have l: "dt_less b (next_day (next_day b))"
      by (rule dt_less_trans [OF dt_less_next_day dt_less_next_day])
    from s o1 o2 w2 l w time_next_day [of b] time_next_day [of "next_day b"] show ?thesis
      by simp
  qed
  have sun: ?thesis if w: "weekday b = 6"
  proof -
    note s = adjust_sunday [OF v w]
    have o1: "toordinal (next_day b) = toordinal b + 1"
      using v by (intro toordinal_next_day) (simp_all add: valid_datetime_def)
    have w1: "weekday (next_day b) = 0" using weekday_next_day [OF v] w by simp
    from s o1 w1 w dt_less_next_day [of b] time_next_day [of b] show ?thesis by simp
  qed
  have wk: ?thesis if w: "weekday b \<le> 4"
    using adjust_weekday [OF w] w r by simp
  from r have "weekday b \<le> 4 \<or> weekday b = 5 \<or> weekday b = 6" by arith
  with sat sun wk show ?thesis by blast
qed

theorem adjust_for_weekend_next_monday_witness:
  "valid_datetime \<lparr>year = 2024, month = 6, day = 15, hour = 0, minute = 0, second = 0,
                   microsecond = 0\<rparr> \<and>
   weekday \<lparr>year = 2024, month = 6, day = 15, hour = 0, minute = 0, second = 0,
            microsecond = 0\<rparr> = 5 \<and>
   adjust_for_weekend \<lparr>year = 2024, month = 6, day = 15, hour = 0, minute = 0, second = 0,
                       microsecond = 0\<rparr> =
     Inr \<lparr>year = 2024, month = 6, day = 17, hour = 0, minute = 0, second = 0,
          microsecond = 0\<rparr> \<and>
   weekday \<lparr>year = 2024, month = 6, day = 17, hour = 0, minute = 0, second = 0,
            microsecond = 0\<rparr> = 0"
proof -
  have v: "valid_datetime \<lparr>year = 2024, month = 6, day = 15, hour = 0, minute = 0,
                           second = 0, microsecond = 0\<rparr>"
    by (simp add: valid_datetime_def days_in_month_def DAYS_IN_MONTH_def)
  have w: "weekday \<lparr>year = 2024, month = 6, day = 15, hour = 0, minute = 0, second = 0,
                    microsecond = 0\<rparr> = 5"
    by (simp add: weekday_def toordinal_def ymd2ord_def days_before_year_def
        days_before_month_def DAYS_BEFORE_MONTH_def is_leap_def)
  have e: "adjust_for_weekend \<lparr>year = 2024, month = 6, day = 15, hour = 0, minute = 0,
                               second = 0, microsecond = 0\<rparr> =
     Inr \<lparr>year = 2024, month = 6, day = 17, hour = 0, minute = 0, second = 0,
          microsecond = 0\<rparr>"
    by (simp add: adjust_for_weekend_def find_next_weekday_def w plus_days_def
        eval_nat_numeral next_day_def days_in_month_def DAYS_IN_MONTH_def)
  from adjust_for_weekend_next_monday [OF v] v w e show ?thesis by auto
qed

section \<open>Parsing and formatting a birthday\<close>

lemma decimal_digit_cases:
  assumes "decimal_digit c"
  shows "c = CHR ''0'' \<or> c = CHR ''1'' \<or> c = CHR ''2'' \<or> c = CHR ''3'' \<or> c = CHR ''4'' \<or>
         c = CHR ''5'' \<or> c = CHR ''6'' \<or> c = CHR ''7'' \<or> c = CHR ''8'' \<or> c = CHR ''9''"
proof -
  define n where "n = (of_char c :: nat)"
  from assms have "48 \<le> n" "n \<le> 57" by (simp_all add: decimal_digit_def n_def)
  then have "n = 48 \<or> n = 49 \<or> n = 50 \<or> n = 51 \<or> n = 52 \<or> n = 53 \<or> n = 54 \<or> n = 55 \<or> n = 56 \<or> n = 57"
    by arith
  moreover have "c = char_of n" by (simp add: n_def)
  ultimately show ?thesis by (auto simp: char_of_eq_iff)
qed

lemma digit_val_range: "decimal_digit c \<Longrightarrow> 0 \<le> digit_val c \<and> digit_val c \<le> 9"
  by (auto simp: decimal_digit_def digit_val_def)

lemma digit_char_val: "decimal_digit c \<Longrightarrow> digit_char (digit_val c) = c"
  by (simp add: decimal_digit_def digit_val_def digit_char_def)

lemma digit_not_blank: "decimal_digit c \<Longrightarrow> c \<noteq> CHR '' ''"
  by (auto simp: decimal_digit_def)

lemma digit_not_dot: "decimal_digit c \<Longrightarrow> c \<noteq> CHR ''.''"
  by (auto simp: decimal_digit_def)

lemma int_of_text_two:
  "decimal_digit a \<Longrightarrow> decimal_digit b \<Longrightarrow> int_of_text [a, b] = two_digits a b"
  by (simp add: int_of_text_def two_digits_def digit_not_blank)

lemma int_of_text_four:
  "decimal_digit a \<Longrightarrow> decimal_digit b \<Longrightarrow> decimal_digit c \<Longrightarrow> decimal_digit d \<Longrightarrow>
   int_of_text [a, b, c, d] = four_digits a b c d"
  by (simp add: int_of_text_def four_digits_def digit_not_blank)

lemma re_d_dot_two_digits:
  assumes "decimal_digit d1" "decimal_digit d2" "1 \<le> two_digits d1 d2" "two_digits d1 d2 \<le> 31"
  shows "re_d_dot (d1 # d2 # CHR ''.'' # rest) = [([d1, d2], rest)]"
  using decimal_digit_cases [OF assms(1)] decimal_digit_cases [OF assms(2)] assms(3,4)
  by (elim disjE)
    (simp_all add: re_d_dot_def re_d_def in_range_def decimal_digit_def two_digits_def digit_val_def)

lemma re_m_dot_two_digits:
  assumes "decimal_digit m1" "decimal_digit m2" "1 \<le> two_digits m1 m2" "two_digits m1 m2 \<le> 12"
  shows "re_m_dot (m1 # m2 # CHR ''.'' # rest) = [([m1, m2], rest)]"
  using decimal_digit_cases [OF assms(1)] decimal_digit_cases [OF assms(2)] assms(3,4)
  by (elim disjE)
    (simp_all add: re_m_dot_def re_m_def in_range_def decimal_digit_def two_digits_def digit_val_def)

lemma re_Y_four_digits:
  "decimal_digit a \<Longrightarrow> decimal_digit b \<Longrightarrow> decimal_digit c \<Longrightarrow> decimal_digit d \<Longrightarrow>
   re_Y [a, b, c, d] = [([a, b, c, d], [])]"
  by simp

lemma div_mod_digit:
  assumes "0 \<le> r" "r < (10::int)"
  shows "(10 * q + r) div 10 = q" "(10 * q + r) mod 10 = r"
proof -
  have e: "10 * q + r = 10 * q + r" by simp
  from int_div_pos_eq [OF e assms] show "(10 * q + r) div 10 = q" .
  from int_mod_pos_eq [OF e assms] show "(10 * q + r) mod 10 = r" .
qed

lemma pad2_two_digits:
  assumes "decimal_digit a" "decimal_digit b"
  shows "pad2 (two_digits a b) = [a, b]"
proof -
  from digit_val_range [OF assms(2)] have r: "0 \<le> digit_val b" "digit_val b < 10" by simp_all
  from div_mod_digit [OF r, of "digit_val a"] digit_char_val [OF assms(1)] digit_char_val [OF assms(2)]
  show ?thesis by (simp add: pad2_def two_digits_def)
qed

lemma pad4_four_digits:
  assumes "decimal_digit a" "decimal_digit b" "decimal_digit c" "decimal_digit d"
  shows "pad4 (four_digits a b c d) = [a, b, c, d]"
proof -
  define va vb vc vd where "va = digit_val a" and "vb = digit_val b" and "vc = digit_val c"
    and "vd = digit_val d"
  define n where "n = four_digits a b c d"
  from digit_val_range [OF assms(2)] have rb: "0 \<le> vb" "vb < 10" by (simp_all add: vb_def)
  from digit_val_range [OF assms(3)] have rc: "0 \<le> vc" "vc < 10" by (simp_all add: vc_def)
  from digit_val_range [OF assms(4)] have rd: "0 \<le> vd" "vd < 10" by (simp_all add: vd_def)
  have s1: "n = 10 * (100 * va + 10 * vb + vc) + vd"
    by (simp add: n_def four_digits_def va_def vb_def vc_def vd_def)
  have d1: "n div 10 = 100 * va + 10 * vb + vc" unfolding s1 by (rule div_mod_digit(1) [OF rd])
  have m1: "n mod 10 = vd" unfolding s1 by (rule div_mod_digit(2) [OF rd])
  have s2: "n div 10 = 10 * (10 * va + vb) + vc" unfolding d1 by simp
  have d2: "n div 10 div 10 = 10 * va + vb" unfolding s2 by (rule div_mod_digit(1) [OF rc])
  have m2: "n div 10 mod 10 = vc" unfolding s2 by (rule div_mod_digit(2) [OF rc])
  have d3: "n div 10 div 10 div 10 = va" unfolding d2 by (rule div_mod_digit(1) [OF rb])
  have m3: "n div 10 div 10 mod 10 = vb" unfolding d2 by (rule div_mod_digit(2) [OF rb])
  have "n div (10 * 10) = n div 10 div 10" by (rule zdiv_zmult2_eq) simp
  then have e100: "n div 100 = n div 10 div 10" by simp
  have "n div (100 * 10) = n div 100 div 10" by (rule zdiv_zmult2_eq) simp
  then have e1000: "n div 1000 = n div 10 div 10 div 10" by (simp add: e100)
  have "pad4 n = [digit_char va, digit_char vb, digit_char vc, digit_char vd]"
    unfolding pad4_def e100 e1000 d3 m3 m2 m1 by (rule refl)
  then show ?thesis
    unfolding n_def va_def vb_def vc_def vd_def
      digit_char_val [OF assms(1)] digit_char_val [OF assms(2)] digit_char_val [OF assms(3)]
      digit_char_val [OF assms(4)] .
qed

lemma days_in_month_le_31:
  assumes "1 \<le> m" "m \<le> 12"
  shows "days_in_month y m \<le> 31"
  using month_cases [OF assms]
  by (elim disjE) (simp_all add: days_in_month_def DAYS_IN_MONTH_def)

lemma strptime_literal:
  assumes dg: "decimal_digit d1" "decimal_digit d2" "decimal_digit m1" "decimal_digit m2"
      "decimal_digit y1" "decimal_digit y2" "decimal_digit y3" "decimal_digit y4"
    and rd: "real_date (four_digits y1 y2 y3 y4) (two_digits m1 m2) (two_digits d1 d2)"
  shows "strptime_dmY [d1, d2, CHR ''.'', m1, m2, CHR ''.'', y1, y2, y3, y4] =
         Inr \<lparr>year = four_digits y1 y2 y3 y4, month = two_digits m1 m2, day = two_digits d1 d2,
              hour = 0, minute = 0, second = 0, microsecond = 0\<rparr>"
proof -
  from rd have m: "1 \<le> two_digits m1 m2" "two_digits m1 m2 \<le> 12"
    and d: "1 \<le> two_digits d1 d2" "two_digits d1 d2 \<le> days_in_month (four_digits y1 y2 y3 y4) (two_digits m1 m2)"
    and y: "1 \<le> four_digits y1 y2 y3 y4" "four_digits y1 y2 y3 y4 \<le> 9999"
    by (simp_all add: real_date_def)
  from days_in_month_le_31 [OF m, of "four_digits y1 y2 y3 y4"] d have d31: "two_digits d1 d2 \<le> 31" by simp
  have a: "re_d_dot [d1, d2, CHR ''.'', m1, m2, CHR ''.'', y1, y2, y3, y4] =
           [([d1, d2], [m1, m2, CHR ''.'', y1, y2, y3, y4])]"
    by (rule re_d_dot_two_digits [OF dg(1,2) d(1) d31])
  have b: "re_m_dot [m1, m2, CHR ''.'', y1, y2, y3, y4] = [([m1, m2], [y1, y2, y3, y4])]"
    by (rule re_m_dot_two_digits [OF dg(3,4) m])
  have c: "re_Y [y1, y2, y3, y4] = [([y1, y2, y3, y4], [])]"
    by (rule re_Y_four_digits [OF dg(5-8)])
  have r: "re_dmY [d1, d2, CHR ''.'', m1, m2, CHR ''.'', y1, y2, y3, y4] =
           [([d1, d2], [m1, m2], [y1, y2, y3, y4], [])]"
    by (simp add: re_dmY_def a b dg)
  from m d y show ?thesis
    by (simp add: strptime_dmY_def r int_of_text_two [OF dg(1,2)] int_of_text_two [OF dg(3,4)]
        int_of_text_four [OF dg(5-8)] datetime_new_def)
qed

lemma Birthday_2023:
  "Birthday ''29.02.2023'' = Inl (ValueError ''Invalid date format. Use DD.MM.YYYY'')"
  by (simp add: Birthday_def strptime_dmY_def re_dmY_def re_d_dot_def re_m_dot_def re_d_def
      re_m_def in_range_def decimal_digit_def int_of_text_def digit_val_def datetime_new_def
      days_in_month_def DAYS_IN_MONTH_def is_leap_def)

text \<open>
  C5, as stated, fails below the year 1000: \<open>01.01.0999\<close> is a string in the format
  \<open>DD.MM.YYYY\<close> and 1 January 999 is a date of the calendar; \<open>Birthday\<close> accepts it, and
  formatting the parsed value gives \<open>01.01.999\<close>, which is not the string that was parsed.
\<close>

theorem Birthday_round_trip_fails_for_year_999:
  "real_date (four_digits CHR ''0'' CHR ''9'' CHR ''9'' CHR ''9'')
     (two_digits CHR ''0'' CHR ''1'') (two_digits CHR ''0'' CHR ''1'') \<and>
   Birthday ''01.01.0999'' =
     Inr (Field \<lparr>year = 999, month = 1, day = 1, hour = 0, minute = 0, second = 0,
                 microsecond = 0\<rparr>) \<and>
   strftime_dmY \<lparr>year = 999, month = 1, day = 1, hour = 0, minute = 0, second = 0,
                 microsecond = 0\<rparr> = ''01.01.999'' \<and>
   strftime_dmY \<lparr>year = 999, month = 1, day = 1, hour = 0, minute = 0, second = 0,
                 microsecond = 0\<rparr> \<noteq> ''01.01.0999''"
  by code_simp

text \<open>
  C5, amended: a string \<open>DD.MM.YYYY\<close> of two digits, a dot, two digits, a dot and four
  digits whose numbers are a date of the calendar (years 1 to 9999, the day within the
  month of that year) is accepted by \<open>Birthday\<close> as that date at midnight; when the year is
  1000 or later, \<open>strftime("%d.%m.%Y")\<close> of the parsed value gives the string back.
  \<open>29.02.2024\<close> is such a string; \<open>29.02.2023\<close> is refused with the \<open>ValueError\<close> of the
  program.
\<close>

theorem Birthday_parse_format_round_trip:
  assumes "decimal_digit d1" "decimal_digit d2" "decimal_digit m1" "decimal_digit m2"
      "decimal_digit y1" "decimal_digit y2" "decimal_digit y3" "decimal_digit y4"
    and "real_date (four_digits y1 y2 y3 y4) (two_digits m1 m2) (two_digits d1 d2)"
  shows "Birthday [d1, d2, CHR ''.'', m1, m2, CHR ''.'', y1, y2, y3, y4] =
           Inr (Field \<lparr>year = four_digits y1 y2 y3 y4, month = two_digits m1 m2,
                       day = two_digits d1 d2, hour = 0, minute = 0, second = 0,
                       microsecond = 0\<rparr>) \<and>
         (1000 \<le> four_digits y1 y2 y3 y4 \<longrightarrow>
            strftime_dmY \<lparr>year = four_digits y1 y2 y3 y4, month = two_digits m1 m2,
                          day = two_digits d1 d2, hour = 0, minute = 0, second = 0,
                          microsecond = 0\<rparr> =
              [d1, d2, CHR ''.'', m1, m2, CHR ''.'', y1, y2, y3, y4]) \<and>
         Birthday ''29.02.2023'' = Inl (ValueError ''Invalid date format. Use DD.MM.YYYY'')"
proof -
  from strptime_literal [OF assms]
  have p: "Birthday [d1, d2, CHR ''.'', m1, m2, CHR ''.'', y1, y2, y3, y4] =
           Inr (Field \<lparr>year = four_digits y1 y2 y3 y4, month = two_digits m1 m2,
                       day = two_digits d1 d2, hour = 0, minute = 0, second = 0,
                       microsecond = 0\<rparr>)"
    by (simp add: Birthday_def)
  have f: "strftime_dmY \<lparr>year = four_digits y1 y2 y3 y4, month = two_digits m1 m2,
                       day = two_digits d1 d2, hour = 0, minute = 0, second = 0,
                       microsecond = 0\<rparr> =
           [d1, d2, CHR ''.'', m1, m2, CHR ''.'', y1, y2, y3, y4]"
    if "1000 \<le> four_digits y1 y2 y3 y4"
  proof -
    from that have "strftime_Y (four_digits y1 y2 y3 y4) = pad4 (four_digits y1 y2 y3 y4)"
      by (simp add: strftime_Y_def)
    then show ?thesis
      by (simp add: strftime_dmY_def pad2_two_digits [OF assms(1,2)]
          pad2_two_digits [OF assms(3,4)] pad4_four_digits [OF assms(5-8)])
  qed
  from p f Birthday_2023 show ?thesis by simp
qed

theorem Birthday_parse_format_round_trip_witness:
  "decimal_digit CHR ''2'' \<and> decimal_digit CHR ''9'' \<and> decimal_digit CHR ''0'' \<and>
   decimal_digit CHR ''4'' \<and>
   real_date (four_digits CHR ''2'' CHR ''0'' CHR ''2'' CHR ''4'')
     (two_digits CHR ''0'' CHR ''2'') (two_digits CHR ''2'' CHR ''9'') \<and>
   1000 \<le> four_digits CHR ''2'' CHR ''0'' CHR ''2'' CHR ''4'' \<and>
   Birthday ''29.02.2024'' =
     Inr (Field \<lparr>year = 2024, month = 2, day = 29, hour = 0, minute = 0, second = 0,
                 microsecond = 0\<rparr>) \<and>
   strftime_dmY \<lparr>year = 2024, month = 2, day = 29, hour = 0, minute = 0, second = 0,
                 microsecond = 0\<rparr> = ''29.02.2024''"
proof -
  have d: "decimal_digit CHR ''2''" "decimal_digit CHR ''9''" "decimal_digit CHR ''0''"
    "decimal_digit CHR ''4''"
    by (simp_all add: decimal_digit_def)
  have v: "four_digits CHR ''2'' CHR ''0'' CHR ''2'' CHR ''4'' = 2024"
    "two_digits CHR ''0'' CHR ''2'' = 2" "two_digits CHR ''2'' CHR ''9'' = 29"
    by (simp_all add: four_digits_def two_digits_def digit_val_def)
  have r: "real_date (four_digits CHR ''2'' CHR ''0'' CHR ''2'' CHR ''4'')
     (two_digits CHR ''0'' CHR ''2'') (two_digits CHR ''2'' CHR ''9'')"
    by (simp add: v real_date_def days_in_month_def is_leap_def)
  from Birthday_parse_format_round_trip [OF d(1) d(2) d(3) d(1) d(1) d(3) d(1) d(4) r] d r
  show ?thesis by (simp add: v)
qed

section \<open>Upcoming birthdays: a 29 February, and the birthday of today\<close>

lemma replace_year_Inr: "replace_year b y = Inr t \<Longrightarrow> t = b\<lparr>year := y\<rparr>"
  by (auto simp: replace_year_def datetime_new_def split: if_splits)

lemma replace_year_29_february:
  assumes "month b = 2" "day b = 29" "\<not> is_leap y"
  shows "\<exists>e. replace_year b y = Inl e"
  using assms by (simp add: replace_year_def datetime_new_def days_in_month_def DAYS_IN_MONTH_def)

lemma not_leap_next: "is_leap y \<Longrightarrow> \<not> is_leap (y + 1)"
proof -
  assume "is_leap y"
  then have "y mod 4 = 0" by (simp add: is_leap_def)
  then have "(y + 1) mod 4 \<noteq> 0" by presburger
  then show ?thesis by (simp add: is_leap_def)
qed

lemma upcoming_step_raises_29_february:
  assumes b: "birthday r = Some (Field b)" "month b = 2" "day b = 29"
    and c: "\<not> is_leap (year today) \<or> dt_less (b\<lparr>year := year today\<rparr>) today"
  shows "\<exists>e. upcoming_loop ((n, r) # items) days today acc = Inl e"
proof (cases "replace_year b (year today)")
  case (Inl e)
  with b(1) show ?thesis by simp
next
  case (Inr t)
  from replace_year_Inr [OF Inr] have t: "t = b\<lparr>year := year today\<rparr>" .
  from Inr replace_year_29_february [OF b(2,3), of "year today"] have "is_leap (year today)"
    by auto
  with c have l: "dt_less t today" and n: "\<not> is_leap (year today + 1)"
    by (simp_all add: t not_leap_next)
  from replace_year_29_february [OF b(2,3) n] obtain e
    where "replace_year b (year today + 1) = Inl e" by blast
  with Inr l b(1) show ?thesis by simp
qed

lemma upcoming_loop_raises_29_february:
  assumes "(n, r) \<in> set items" "birthday r = Some (Field b)" "month b = 2" "day b = 29"
    and "\<not> is_leap (year today) \<or> dt_less (b\<lparr>year := year today\<rparr>) today"
  shows "\<exists>e. upcoming_loop items days today acc = Inl e"
  using assms(1)
proof (induction items arbitrary: acc)
  case Nil
  then show ?case by simp
next
  case (Cons item items)
  obtain n' r' where item: "item = (n', r')" by (cases item)
  show ?case
  proof (cases "(n, r) = item")
    case True
    with item have "item = (n, r)" by simp
    with upcoming_step_raises_29_february [OF assms(2-5), of n items days acc]
    show ?thesis by simp
  next
    case False
    with Cons.prems have "(n, r) \<in> set items" by simp
    from Cons.IH [OF this] item show ?thesis
      by (auto split: option.splits sum.splits)
  qed
qed

text \<open>
  C1 does not hold of the code. When some record of the book has its birthday on
  29 February and the year of today is not a leap year, or that birthday of this year lies
  before today and so the next year is taken, which is never a leap year after a leap year,
  \<open>replace\<close> raises \<open>ValueError\<close>: \<open>get_upcoming_birthdays\<close> ends with an exception and
  returns no list. \<open>Birthday\<close> accepts \<open>29.02.2024\<close>, so such a record can be in the book.
\<close>

theorem get_upcoming_birthdays_raises_on_29_february:
  assumes "(n, r) \<in> set book" "birthday r = Some (Field b)" "month b = 2" "day b = 29"
    and "\<not> is_leap (year today) \<or> dt_less (b\<lparr>year := year today\<rparr>) today"
  shows "\<exists>e. get_upcoming_birthdays book days today = Inl e"
  unfolding get_upcoming_birthdays_def by (rule upcoming_loop_raises_29_february [OF assms])

theorem get_upcoming_birthdays_raises_on_29_february_witness:
  "add_birthday (Record_init ''Ann'') ''29.02.2024'' =
     (Inr (), \<lparr>name = Field ''Ann'', phones = [],
               birthday = Some (Field \<lparr>year = 2024, month = 2, day = 29, hour = 0, minute = 0,
                                         second = 0, microsecond = 0\<rparr>)\<rparr>) \<and>
   \<not> is_leap 2025 \<and>
   get_upcoming_birthdays
     (add_record [] \<lparr>name = Field ''Ann'', phones = [],
               birthday = Some (Field \<lparr>year = 2024, month = 2, day = 29, hour = 0, minute = 0,
                                         second = 0, microsecond = 0\<rparr>)\<rparr>)
     7 \<lparr>year = 2025, month = 3, day = 1, hour = 12, minute = 0, second = 0, microsecond = 0\<rparr> =
   Inl (ValueError ''day is out of range for month'')"
proof -
  let ?b = "\<lparr>year = 2024, month = 2, day = 29, hour = 0, minute = 0, second = 0,
             microsecond = 0\<rparr>"
  let ?r = "\<lparr>name = Field ''Ann'', phones = [], birthday = Some (Field ?b)\<rparr>"
  let ?today = "\<lparr>year = 2025, month = 3, day = 1, hour = 12, minute = 0, second = 0,
                 microsecond = 0\<rparr>"
  have a: "add_birthday (Record_init ''Ann'') ''29.02.2024'' = (Inr (), ?r)" by code_simp
  have l: "\<not> is_leap 2025" by (simp add: is_leap_def)
  have m: "(''Ann'', ?r) \<in> set (add_record [] ?r)" by (simp add: add_record_def)
  have c: "\<not> is_leap (year ?today) \<or> dt_less (?b\<lparr>year := year ?today\<rparr>) ?today"
    using l by simp
  have e: "get_upcoming_birthdays (add_record [] ?r) 7 ?today =
           Inl (ValueError ''day is out of range for month'')" by code_simp
  have f: "birthday ?r = Some (Field ?b)" "month ?b = 2" "day ?b = 29" by simp_all
  from get_upcoming_birthdays_raises_on_29_february [OF m f c, of 7] a l e show ?thesis by simp
qed

lemma replace_year_ok:
  assumes v: "valid_datetime b" and nf: "\<not> (month b = 2 \<and> day b = 29)"
    and y: "1 \<le> y" "y \<le> 9999"
  shows "replace_year b y = Inr (b\<lparr>year := y\<rparr>)"
proof -
  have d: "day b \<le> days_in_month y (month b)"
  proof (cases "month b = 2")
    case True
    with v have "day b \<le> 29" by (simp add: valid_datetime_def days_in_month_def DAYS_IN_MONTH_def split: if_splits)
    with nf True have "day b \<le> 28" by simp
    with True show ?thesis by (simp add: days_in_month_def DAYS_IN_MONTH_def)
  next
    case False
    with v show ?thesis by (simp add: valid_datetime_def days_in_month_def)
  qed
  with v y show ?thesis
    by (simp add: replace_year_def datetime_new_def valid_datetime_def)
qed

lemma toordinal_next_year:
  "365 \<le> toordinal (b\<lparr>year := y + 1\<rparr>) - toordinal (b\<lparr>year := y\<rparr>)"
proof -
  have "days_before_year (y + 1) = days_before_year y + 365 + (if is_leap y then 1 else 0)"
    by (rule days_before_year_Suc)
  moreover have "days_before_month y (month b) \<le> days_before_month (y + 1) (month b) + (if is_leap y then 1 else 0)"
    by (simp add: days_before_month_def)
  ultimately show ?thesis by (simp add: toordinal_def ymd2ord_def)
qed

lemma le_div_int: "0 < (k::int) \<Longrightarrow> a * k \<le> x \<Longrightarrow> a \<le> x div k"
proof -
  assume k: "0 < k" and a: "a * k \<le> x"
  from zdiv_mono1 [OF a k] k show ?thesis by simp
qed

lemma td_days_next_year:
  assumes "365 \<le> toordinal a - toordinal today"
    and "hour a = 0" "minute a = 0" "second a = 0" "microsecond a = 0"
    and "valid_datetime today"
  shows "364 \<le> td_days (datetime_sub a today)"
proof -
  define D where "D = toordinal a - toordinal today"
  define S where "S = seconds_of_day today"
  define U where "U = microsecond today"
  from assms(6) have S: "S \<le> 86399" and U: "U \<le> 999999"
    by (simp_all add: S_def U_def seconds_of_day_def valid_datetime_def)
  from assms(1) have D: "365 \<le> D" by (simp add: D_def)
  have t: "td_days (datetime_sub a today) = ((D * 86400 + (0 - S)) * 1000000 + (0 - U)) div 86400000000"
    using assms(2-5)
    by (simp add: datetime_sub_def timedelta_new_def Let_def D_def S_def U_def seconds_of_day_def)
  from D S U have "364 * 86400000000 \<le> (D * 86400 + (0 - S)) * 1000000 + (0 - U)" by simp
  from le_div_int [OF _ this] t show ?thesis by simp
qed

lemma dt_less_same_day:
  assumes "year a = year today" "month a = month today" "day a = day today"
    and "hour a = 0" "minute a = 0" "second a = 0" "microsecond a = 0"
    and "valid_datetime today"
    and "0 < hour today \<or> 0 < minute today \<or> 0 < second today \<or> 0 < microsecond today"
  shows "dt_less a today"
  using assms by (auto simp: dt_less_def dt_fields_def valid_datetime_def)

text \<open>
  C2 does not hold of the code. Take a record whose birthday, a date at midnight as
  \<open>Birthday\<close> makes them, falls on the calendar date of today, and a clock that reads any
  time after midnight. The birthday of this year is then earlier than the value of the
  clock, which carries the time of day, so the code moves it to the next year; it lies 364
  or 365 whole days ahead, and for every window below 364 days the record is left out.
  With the clock at midnight exactly, the record is listed for today.
\<close>

theorem get_upcoming_birthdays_skips_birthday_of_today:
  assumes br: "birthday r = Some (Field b)"
    and vb: "valid_datetime b"
    and mid: "hour b = 0" "minute b = 0" "second b = 0" "microsecond b = 0"
    and same: "month b = month today" "day b = day today"
    and nf: "\<not> (month b = 2 \<and> day b = 29)"
    and vt: "valid_datetime today" and y: "year today < 9999"
    and late: "0 < hour today \<or> 0 < minute today \<or> 0 < second today \<or> 0 < microsecond today"
    and w: "days < 364"
  shows "upcoming_loop ((n, r) # items) days today acc = upcoming_loop items days today acc \<and>
         get_upcoming_birthdays [(n, r)] days today = Inr []"
proof -
  from vt have yt: "1 \<le> year today" "year today \<le> 9999" "1 \<le> year today + 1"
    by (simp_all add: valid_datetime_def)
  from y have yn: "year today + 1 \<le> 9999" by simp
  have r1: "replace_year b (year today) = Inr (b\<lparr>year := year today\<rparr>)"
    by (rule replace_year_ok [OF vb nf yt(1,2)])
  have r2: "replace_year b (year today + 1) = Inr (b\<lparr>year := year today + 1\<rparr>)"
    by (rule replace_year_ok [OF vb nf yt(3) yn])
  have l: "dt_less (b\<lparr>year := year today\<rparr>) today"
    using same mid vt late by (intro dt_less_same_day) simp_all
  have "toordinal (b\<lparr>year := year today\<rparr>) = toordinal today"
    using same by (simp add: toordinal_def)
  with toordinal_next_year [where b = b and y = "year today"]
  have "365 \<le> toordinal (b\<lparr>year := year today + 1\<rparr>) - toordinal today" by simp
  from td_days_next_year [OF this _ _ _ _ vt] mid
  have "364 \<le> td_days (datetime_sub (b\<lparr>year := year today + 1\<rparr>) today)" by simp
  with w have out: "\<not> td_days (datetime_sub (b\<lparr>year := year today + 1\<rparr>) today) \<le> days" by simp
  have step: "upcoming_loop ((n, r) # items) days today acc = upcoming_loop items days today acc"
    for items acc
    using br r1 r2 l out by simp
  from step [of "[]" "[]"] step [of items acc] show ?thesis
    by (simp add: get_upcoming_birthdays_def)
qed

theorem get_upcoming_birthdays_skips_birthday_of_today_witness:
  "add_birthday (Record_init ''Ann'') ''10.06.1990'' =
     (Inr (), \<lparr>name = Field ''Ann'', phones = [],
               birthday = Some (Field \<lparr>year = 1990, month = 6, day = 10, hour = 0, minute = 0,
                                         second = 0, microsecond = 0\<rparr>)\<rparr>) \<and>
   valid_datetime \<lparr>year = 2024, month = 6, day = 10, hour = 12, minute = 0, second = 0,
                   microsecond = 0\<rparr> \<and>
   get_upcoming_birthdays
     [(''Ann'', \<lparr>name = Field ''Ann'', phones = [],
               birthday = Some (Field \<lparr>year = 1990, month = 6, day = 10, hour = 0, minute = 0,
                                         second = 0, microsecond = 0\<rparr>)\<rparr>)]
     7 \<lparr>year = 2024, month = 6, day = 10, hour = 12, minute = 0, second = 0, microsecond = 0\<rparr> =
   Inr [] \<and>
   get_upcoming_birthdays
     [(''Ann'', \<lparr>name = Field ''Ann'', phones = [],
               birthday = Some (Field \<lparr>year = 1990, month = 6, day = 10, hour = 0, minute = 0,
                                         second = 0, microsecond = 0\<rparr>)\<rparr>)]
     7 \<lparr>year = 2024, month = 6, day = 10, hour = 0, minute = 0, second = 0, microsecond = 0\<rparr> =
   Inr [\<lparr>Contact = ''Ann'', upcoming_birthday = ''10.06.2024''\<rparr>]"
proof -
  let ?b = "\<lparr>year = 1990, month = 6, day = 10, hour = 0, minute = 0, second = 0,
             microsecond = 0\<rparr>"
  let ?r = "\<lparr>name = Field ''Ann'', phones = [], birthday = Some (Field ?b)\<rparr>"
  let ?today = "\<lparr>year = 2024, month = 6, day = 10, hour = 12, minute = 0, second = 0,
                 microsecond = 0\<rparr>"
  let ?midnight = "\<lparr>year = 2024, month = 6, day = 10, hour = 0, minute = 0, second = 0,
                    microsecond = 0\<rparr>"
  have a: "add_birthday (Record_init ''Ann'') ''10.06.1990'' = (Inr (), ?r)" by code_simp
  have br: "birthday ?r = Some (Field ?b)" by simp
  have vb: "valid_datetime ?b"
    by (simp add: valid_datetime_def days_in_month_def DAYS_IN_MONTH_def)
  have vt: "valid_datetime ?today"
    by (simp add: valid_datetime_def days_in_month_def DAYS_IN_MONTH_def)
  have mid: "hour ?b = 0" "minute ?b = 0" "second ?b = 0" "microsecond ?b = 0" by simp_all
  have same: "month ?b = month ?today" "day ?b = day ?today" by simp_all
  have nf: "\<not> (month ?b = 2 \<and> day ?b = 29)" by simp
  have y: "year ?today < 9999" by simp
  have late: "0 < hour ?today \<or> 0 < minute ?today \<or> 0 < second ?today \<or>
              0 < microsecond ?today" by simp
  have w: "(7::int) < 364" by simp
  have m: "get_upcoming_birthdays [(''Ann'', ?r)] 7 ?midnight =
           Inr [\<lparr>Contact = ''Ann'', upcoming_birthday = ''10.06.2024''\<rparr>]" by code_simp
  from get_upcoming_birthdays_skips_birthday_of_today [OF br vb mid same nf vt y late w,
      of "''Ann''" "[]" "[]"] a vt m
  show ?thesis by simp
qed

end
